theory Spec2Isabelle
  imports Complex_Main
begin

section \<open>Python strings\<close>

text \<open>
  A Python \<open>str\<close> is a sequence of Unicode code points; a code point is modelled by its
  number. \<open>s[::-1]\<close> is \<^const>\<open>rev\<close>, \<open>len\<close> is \<^const>\<open>length\<close>, \<open>+\<close> is \<open>@\<close>.
\<close>

type_synonym pystr = "nat list"

abbreviation newline :: nat where
  "newline \<equiv> 10"

text \<open>\<open>str.isspace\<close> on one character: the code points CPython classifies as whitespace.\<close>

definition isspace :: "nat \<Rightarrow> bool" where
  "isspace c =
     (c \<in> set [9, 10, 11, 12, 13, 28, 29, 30, 31, 32, 133, 160, 5760,
               8232, 8233, 8239, 8287, 12288]
      \<or> (8192 \<le> c \<and> c \<le> 8202))"

text \<open>The line boundaries \<open>str.splitlines\<close> recognises (besides the pair CR LF).\<close>

definition is_linebreak :: "nat \<Rightarrow> bool" where
  "is_linebreak c = (c \<in> set [10, 11, 12, 13, 28, 29, 30, 133, 8232, 8233])"

text \<open>
  \<open>str.splitlines()\<close>: the text is cut at every line boundary, the boundaries are dropped,
  CR LF counts as one boundary, and a last piece is produced only when it is not empty.
  The first argument is the piece read so far.
\<close>

fun splitlines_from :: "pystr \<Rightarrow> pystr \<Rightarrow> pystr list" where
  "splitlines_from cur [] = (if cur = [] then [] else [cur])"
| "splitlines_from cur [c] = (if is_linebreak c then [cur] else [cur @ [c]])"
| "splitlines_from cur (c # d # cs) =
     (if c = 13 \<and> d = 10 then cur # splitlines_from [] cs
      else if is_linebreak c then cur # splitlines_from [] (d # cs)
      else splitlines_from (cur @ [c]) (d # cs))"

definition splitlines :: "pystr \<Rightarrow> pystr list" where
  "splitlines text = splitlines_from [] text"

text \<open>\<open>str.strip()\<close> without argument removes leading and trailing whitespace.\<close>

definition strip :: "pystr \<Rightarrow> pystr" where
  "strip s = rev (dropWhile isspace (rev (dropWhile isspace s)))"

text \<open>
  The comprehension \<open>[line.strip() for line in text.splitlines() if line.strip()]\<close>,
  which both extraction functions bind to \<open>lines\<close>.
\<close>

definition lines_of :: "pystr \<Rightarrow> pystr list" where
  "lines_of text = map strip (filter (\<lambda>line. strip line \<noteq> []) (splitlines text))"

section \<open>Pages, tables and frames\<close>

type_synonym bbox = "real \<times> real \<times> real \<times> real"

text \<open>
  A cell value of a frame: a string, an integer, a floating-point number, \<open>None\<close>, or the
  floating-point missing-value marker \<open>nan\<close>.
\<close>

datatype cell = Str pystr | IntVal int | FloatVal real | NoneVal | NaN

text \<open>
  A table as \<open>page.extract_tables()\<close> returns it: a list of rows, each cell a string or
  \<open>None\<close>.
\<close>

type_synonym table = "pystr option list list"

record table_obj =
  bbox :: bbox

text \<open>
  The page object of the PDF library, as far as the script uses it: its width and height,
  \<open>page.within_bbox(b).extract_text()\<close> as a function of \<open>b\<close> (the text, or \<open>None\<close>),
  \<open>page.extract_tables()\<close> and \<open>page.find_tables()\<close>. Exceptions raised inside the library
  are outside this model.
\<close>

record page =
  width :: real
  height :: real
  within_bbox_extract_text :: "bbox \<Rightarrow> pystr option"
  extract_tables :: "table list"
  find_tables :: "table_obj list"

text \<open>Column labels: the positions \<open>0, 1, ...\<close> of \<open>pd.DataFrame(table)\<close>, or a name.\<close>

datatype label = ColNum nat | ColName pystr

text \<open>
  A data frame, column by column: the number of rows and the labelled columns in order.
\<close>

record dataframe =
  nrows :: nat
  cols :: "(label \<times> cell list) list"

datatype error = ValueError

text \<open>
  The type inference the tabular-data library runs over a column of objects, both when a
  frame is built from rows and after \<open>applymap\<close> has mapped a column
  (\<open>lib.maybe_convert_objects\<close>). A column that holds a string stays a column of objects,
  and so does a column of nothing but \<open>None\<close>. Otherwise a column that holds a float, or
  \<open>None\<close> beside an integer, becomes a column of floats: an integer becomes the float of
  the same value and \<open>None\<close> becomes \<open>nan\<close>. A column of integers only keeps its values.
  Integers are taken to fit in 64 bits and to convert to floats exactly.
\<close>

fun is_str :: "cell \<Rightarrow> bool" where
  "is_str (Str s) = True"
| "is_str x = False"

fun is_int :: "cell \<Rightarrow> bool" where
  "is_int (IntVal i) = True"
| "is_int x = False"

fun is_float :: "cell \<Rightarrow> bool" where
  "is_float (FloatVal r) = True"
| "is_float NaN = True"
| "is_float x = False"

fun is_none :: "cell \<Rightarrow> bool" where
  "is_none NoneVal = True"
| "is_none x = False"

fun to_float :: "cell \<Rightarrow> cell" where
  "to_float (IntVal i) = FloatVal (of_int i)"
| "to_float NoneVal = NaN"
| "to_float x = x"

definition maybe_convert_objects :: "cell list \<Rightarrow> cell list" where
  "maybe_convert_objects vs =
     (if list_ex is_str vs then vs
      else if list_ex is_float vs \<or> (list_ex is_int vs \<and> list_ex is_none vs)
      then map to_float vs
      else vs)"


text \<open>
  \<open>pd.DataFrame(table)\<close> for a list of rows: as many columns as the longest row has
  cells, labelled by position; a shorter row is filled up with \<open>None\<close>; the type of
  every column is inferred.
\<close>

definition table_width :: "table \<Rightarrow> nat" where
  "table_width t = fold max (map length t) 0"

definition cell_of :: "pystr option \<Rightarrow> cell" where
  "cell_of v = (case v of None \<Rightarrow> NoneVal | Some s \<Rightarrow> Str s)"

definition DataFrame :: "table \<Rightarrow> dataframe" where
  "DataFrame t =
     \<lparr>nrows = length t,
      cols = map (\<lambda>j. (ColNum j,
                        maybe_convert_objects
                          (map (\<lambda>row. if j < length row then cell_of (row ! j) else NoneVal) t)))
                 [0..<table_width t]\<rparr>"

text \<open>
  \<open>df.applymap(f)\<close>: \<open>f\<close> is applied to every cell of every column, and the type of each
  mapped column is inferred again.
\<close>

definition applymap :: "(cell \<Rightarrow> cell) \<Rightarrow> dataframe \<Rightarrow> dataframe" where
  "applymap f df =
     df\<lparr>cols := map (\<lambda>(l, vs). (l, maybe_convert_objects (map f vs))) (cols df)\<rparr>"

text \<open>\<open>df[key] = ...\<close>: an existing column is replaced in place, a new one is appended.\<close>

fun assign_col :: "label \<Rightarrow> cell list \<Rightarrow> (label \<times> cell list) list \<Rightarrow> (label \<times> cell list) list" where
  "assign_col k vs [] = [(k, vs)]"
| "assign_col k vs ((l, ws) # rest) =
     (if l = k then (l, vs) # rest else (l, ws) # assign_col k vs rest)"

definition setitem_scalar :: "label \<Rightarrow> cell \<Rightarrow> dataframe \<Rightarrow> dataframe" where
  "setitem_scalar k v df = df\<lparr>cols := assign_col k (replicate (nrows df) v) (cols df)\<rparr>"

text \<open>
  Assigning a sequence raises \<open>ValueError\<close> when its length is not the number of rows.
\<close>

definition setitem_seq :: "label \<Rightarrow> cell list \<Rightarrow> dataframe \<Rightarrow> error + dataframe" where
  "setitem_seq k vs df =
     (if length vs = nrows df then Inr (df\<lparr>cols := assign_col k vs (cols df)\<rparr>)
      else Inl ValueError)"

text \<open>The distinct elements of a list, each at its first occurrence.\<close>

fun first_seen :: "'a list \<Rightarrow> 'a list" where
  "first_seen [] = []"
| "first_seen (x # xs) = x # first_seen (filter (\<lambda>y. y \<noteq> x) xs)"

text \<open>
  \<open>pd.concat(dfs, ignore_index=True)\<close>: the frames are stacked; the columns are the union
  of the frames' columns in order of first appearance, and a frame that lacks a column
  contributes missing values to it. An empty list of frames is a \<open>ValueError\<close>.
\<close>

definition column_or_missing :: "label \<Rightarrow> dataframe \<Rightarrow> cell list" where
  "column_or_missing l df =
     (case map_of (cols df) l of Some vs \<Rightarrow> vs | None \<Rightarrow> replicate (nrows df) NaN)"

definition pd_concat :: "dataframe list \<Rightarrow> error + dataframe" where
  "pd_concat dfs =
     (if dfs = [] then Inl ValueError
      else Inr \<lparr>nrows = sum_list (map nrows dfs),
                cols = map (\<lambda>l. (l, concat (map (column_or_missing l) dfs)))
                           (first_seen (concat (map (\<lambda>df. map fst (cols df)) dfs)))\<rparr>)"

text \<open>Row \<open>i\<close> of a frame: the labelled cells at position \<open>i\<close> of every column.\<close>

definition df_row :: "dataframe \<Rightarrow> nat \<Rightarrow> (label \<times> cell) list" where
  "df_row df i = map (\<lambda>(l, vs). (l, vs ! i)) (cols df)"

section \<open>Helper functions of the script\<close>

definition reverse_strings :: "dataframe \<Rightarrow> dataframe" where
  "reverse_strings df = applymap (\<lambda>x. case x of Str s \<Rightarrow> Str (rev s) | _ \<Rightarrow> x) df"

text \<open>The band above the table (\<open>header_bbox\<close>) and the band below it (\<open>footer_bbox\<close>).\<close>

definition header_bbox :: "page \<Rightarrow> bbox \<Rightarrow> real \<Rightarrow> bbox" where
  "header_bbox pg table_bbox height_above =
     (case table_bbox of (x0, y0, x1, y1) \<Rightarrow>
        (0, max (y0 - height_above) 0, width pg, y0))"

definition footer_bbox :: "page \<Rightarrow> bbox \<Rightarrow> real \<Rightarrow> bbox" where
  "footer_bbox pg table_bbox height_scan =
     (case table_bbox of (x0, y0, x1, y1) \<Rightarrow>
        (0, y1, width pg, min (y1 + height_scan) (height pg)))"

text \<open>\<open>not text\<close> holds for \<open>None\<close> and for the empty string.\<close>

definition extract_header_above_table :: "page \<Rightarrow> bbox \<Rightarrow> real \<Rightarrow> pystr \<times> pystr" where
  "extract_header_above_table pg table_bbox height_above =
     (case within_bbox_extract_text pg (header_bbox pg table_bbox height_above) of
        None \<Rightarrow> ([], [])
      | Some text \<Rightarrow>
          if text = [] then ([], [])
          else
            let lines = lines_of text;
                first_line = (if length lines > 0 then rev (lines ! 0) else []);
                second_line = (if length lines > 1 then rev (lines ! 1) else [])
            in (first_line, second_line))"

definition extract_lines_below_table :: "page \<Rightarrow> bbox \<Rightarrow> real \<Rightarrow> pystr" where
  "extract_lines_below_table pg table_bbox height_scan =
     (case within_bbox_extract_text pg (footer_bbox pg table_bbox height_scan) of
        None \<Rightarrow> []
      | Some text \<Rightarrow>
          if text = [] then []
          else
            let lines = lines_of text;
                third_line = (if length lines > 2 then rev (lines ! 2) else []);
                fourth_line = (if length lines > 3 then rev (lines ! 3) else []);
                fifth_line = (if length lines > 4 then rev (lines ! 4) else [])
            in fold (\<lambda>l combined. if l \<noteq> [] then combined @ [newline] @ l else combined)
                    [fourth_line, fifth_line] third_line)"

section \<open>Processing a PDF\<close>

text \<open>The six metadata column names, as code points.\<close>

definition col_page :: label where
  "col_page = ColName [1588, 1605, 1575, 1585, 1607, 32, 1589, 1601, 1581, 1607]"

definition col_row :: label where
  "col_row = ColName [1585, 1583, 1740, 1601]"

definition col_reshte :: label where
  "col_reshte = ColName [1585, 1588, 1578, 1607, 32, 1583, 1576, 1740, 1585, 1587, 1578, 1575, 1606]"

definition col_title :: label where
  "col_title = ColName [1593, 1606, 1608, 1575, 1606, 32, 1580, 1583, 1608, 1604]"

definition col_title2 :: label where
  "col_title2 = ColName [1593, 1606, 1608, 1575, 1606, 32, 1583, 1608, 1605]"

definition col_footer :: label where
  "col_footer = ColName [1582, 1591, 32, 1587, 1608, 1605, 32, 1578, 1575, 32, 1662, 1606, 1580,
                         1605, 32, 1662, 1575, 1740, 1740, 1606, 32, 1580, 1583, 1608, 1604]"

text \<open>
  The body of the loop over the tables of a page, for a table that is not empty: the frame
  is built and normalised, the title and the footnote are read from the page with the
  default band heights 60 and 70, and the six metadata columns are added.
\<close>

definition process_table :: "int \<Rightarrow> pystr \<Rightarrow> page \<Rightarrow> table \<Rightarrow> table_obj \<Rightarrow> error + dataframe" where
  "process_table page_num reshte pg t tobj =
     (let df = DataFrame t;
          df = reverse_strings df;
          (header_line1, header_line2) = extract_header_above_table pg (bbox tobj) 60;
          footer_combined = extract_lines_below_table pg (bbox tobj) 70;
          df = setitem_scalar col_page (IntVal page_num) df
      in case setitem_seq col_row (map IntVal [1..int (nrows df)]) df of
           Inl e \<Rightarrow> Inl e
         | Inr df \<Rightarrow>
             Inr (setitem_scalar col_footer (Str footer_combined)
                   (setitem_scalar col_title2 (Str header_line2)
                     (setitem_scalar col_title (Str header_line1)
                       (setitem_scalar col_reshte (Str reshte) df)))))"

text \<open>The loop over \<open>zip(tables, table_objs)\<close>, collecting \<open>all_dfs\<close>; an empty table is skipped.\<close>

fun table_loop :: "int \<Rightarrow> pystr \<Rightarrow> page \<Rightarrow> (table \<times> table_obj) list \<Rightarrow> error + dataframe list" where
  "table_loop page_num reshte pg [] = Inr []"
| "table_loop page_num reshte pg ((t, tobj) # rest) =
     (if t = [] then table_loop page_num reshte pg rest
      else case process_table page_num reshte pg t tobj of
             Inl e \<Rightarrow> Inl e
           | Inr df \<Rightarrow>
               (case table_loop page_num reshte pg rest of
                  Inl e \<Rightarrow> Inl e
                | Inr dfs \<Rightarrow> Inr (df # dfs)))"

definition all_dfs :: "int \<Rightarrow> pystr \<Rightarrow> page \<Rightarrow> error + dataframe list" where
  "all_dfs page_num reshte pg =
     (let tables = extract_tables pg; table_objs = find_tables pg
      in if tables \<noteq> [] \<and> table_objs \<noteq> [] \<and> length tables = length table_objs
         then table_loop page_num reshte pg (zip tables table_objs)
         else Inr [])"

text \<open>
  A written spreadsheet: the file name is made of the PDF's path and the page number, and
  the content is the concatenated frame.
\<close>

record saved_file =
  of_pdf :: pystr
  of_page :: int
  content :: dataframe

definition process_page :: "pystr \<Rightarrow> pystr \<Rightarrow> int \<Rightarrow> page \<Rightarrow> error + saved_file option" where
  "process_page pdf_path reshte page_num pg =
     (case all_dfs page_num reshte pg of
        Inl e \<Rightarrow> Inl e
      | Inr dfs \<Rightarrow>
          if dfs \<noteq> [] then
            (case pd_concat dfs of
               Inl e \<Rightarrow> Inl e
             | Inr result_df \<Rightarrow>
                 Inr (Some \<lparr>of_pdf = pdf_path, of_page = page_num, content = result_df\<rparr>))
          else Inr None)"

text \<open>
  The loop over \<open>enumerate(pdf.pages, start=1)\<close>: the files written, in order, and the
  exception that ended the run, if any. The progress messages are not modelled.
\<close>

fun page_loop :: "pystr \<Rightarrow> pystr \<Rightarrow> int \<Rightarrow> page list \<Rightarrow> saved_file list \<times> error option" where
  "page_loop pdf_path reshte page_num [] = ([], None)"
| "page_loop pdf_path reshte page_num (pg # pgs) =
     (case process_page pdf_path reshte page_num pg of
        Inl e \<Rightarrow> ([], Some e)
      | Inr w \<Rightarrow>
          (let (files, err) = page_loop pdf_path reshte (page_num + 1) pgs
           in ((case w of None \<Rightarrow> files | Some f \<Rightarrow> f # files), err)))"

definition process_pdf :: "pystr \<Rightarrow> pystr \<Rightarrow> page list \<Rightarrow> saved_file list \<times> error option" where
  "process_pdf pdf_path reshte pdf = page_loop pdf_path reshte 1 pdf"

section \<open>Example pages\<close>

definition example_text :: pystr where
  "example_text = [65, 66, 10, 32, 67, 68, 13, 10, 10, 69, 70, 32, 10, 71, 72, 10, 73, 74, 10]"

definition example_page :: page where
  "example_page =
     \<lparr>width = 595, height = 842,
      within_bbox_extract_text = (\<lambda>b. if b = (0, 100, 595, 170) then Some example_text else None),
      extract_tables = [], find_tables = []\<rparr>"

definition one_line_page :: page where
  "one_line_page =
     \<lparr>width = 595, height = 842,
      within_bbox_extract_text = (\<lambda>b. Some [32, 65, 66, 67, 32, 10, 9, 10]),
      extract_tables = [], find_tables = []\<rparr>"

definition blank_page :: page where
  "blank_page =
     \<lparr>width = 595, height = 842,
      within_bbox_extract_text = (\<lambda>b. Some [32, 9, 10, 13, 10, 160, 8195]),
      extract_tables = [], find_tables = []\<rparr>"

definition two_table_page :: page where
  "two_table_page =
     \<lparr>width = 595, height = 842,
      within_bbox_extract_text = (\<lambda>b. if b = (0, 100, 595, 170) then Some example_text else None),
      extract_tables =
        [[[Some [65, 66], None], [Some [67]], [None, Some [68, 69]]],
         [],
         [[Some [70]], [Some [71]], [Some [72]]]],
      find_tables = [\<lparr>bbox = (50, 40, 500, 100)\<rparr>, \<lparr>bbox = (50, 300, 500, 300)\<rparr>,
                     \<lparr>bbox = (50, 400, 500, 500)\<rparr>]\<rparr>"

definition mismatch_page :: page where
  "mismatch_page =
     \<lparr>width = 595, height = 842,
      within_bbox_extract_text = (\<lambda>b. None),
      extract_tables = [[[Some [65]]], [[Some [66]]]],
      find_tables = [\<lparr>bbox = (50, 40, 500, 100)\<rparr>]\<rparr>"



definition example_table :: table where
  "example_table = [[Some [65, 66]], [Some [67], None]]"

section \<open>Lines of a band\<close>

lemma strip_last: "strip s \<noteq> [] \<Longrightarrow> \<not> isspace (last (strip s))"
  unfolding strip_def by (simp add: last_rev hd_dropWhile)

lemma splitlines_from_set:
  "l \<in> set (splitlines_from cur t) \<Longrightarrow> set l \<subseteq> set cur \<union> set t"
  by (induction cur t rule: splitlines_from.induct) (auto split: if_splits)

lemma strip_all_space: "\<forall>c\<in>set s. isspace c \<Longrightarrow> strip s = []"
  by (auto simp: strip_def dest: set_dropWhileD)

lemma lines_of_member: "l \<in> set (lines_of t) \<Longrightarrow> l \<noteq> [] \<and> \<not> isspace (last l)"
  unfolding lines_of_def by (auto simp: strip_last)

lemma lines_of_nth: "i < length (lines_of t) \<Longrightarrow> lines_of t ! i \<noteq> [] \<and> \<not> isspace (last (lines_of t ! i))"
  using lines_of_member [of "lines_of t ! i" t] by simp

lemma lines_of_whitespace: "\<forall>c\<in>set t. isspace c \<Longrightarrow> lines_of t = []"
  unfolding lines_of_def splitlines_def
  by (auto simp: filter_empty_conv dest!: splitlines_from_set intro!: strip_all_space)

lemma lines_of_Nil: "lines_of [] = []"
  by (simp add: lines_of_def splitlines_def)

lemma below_Some:
  "within_bbox_extract_text pg (footer_bbox pg bb hs) = Some s \<Longrightarrow>
   extract_lines_below_table pg bb hs =
     (if 2 < length (lines_of s) then rev (lines_of s ! 2) else [])
     @ (if 3 < length (lines_of s) then newline # rev (lines_of s ! 3) else [])
     @ (if 4 < length (lines_of s) then newline # rev (lines_of s ! 4) else [])"
  using lines_of_nth [of 3 s] lines_of_nth [of 4 s]
  by (simp add: extract_lines_below_table_def Let_def lines_of_Nil)

lemma below_None:
  "within_bbox_extract_text pg (footer_bbox pg bb hs) = None \<Longrightarrow>
   extract_lines_below_table pg bb hs = []"
  by (simp add: extract_lines_below_table_def)

lemma above_Some:
  "within_bbox_extract_text pg (header_bbox pg bb ha) = Some s \<Longrightarrow>
   extract_header_above_table pg bb ha =
     (if 0 < length (lines_of s) then rev (lines_of s ! 0) else [],
      if 1 < length (lines_of s) then rev (lines_of s ! 1) else [])"
  by (simp add: extract_header_above_table_def Let_def lines_of_Nil)

lemma above_None:
  "within_bbox_extract_text pg (header_bbox pg bb ha) = None \<Longrightarrow>
   extract_header_above_table pg bb ha = ([], [])"
  by (simp add: extract_header_above_table_def)

lemma example_lines: "lines_of example_text = [[65, 66], [67, 68], [69, 70], [71, 72], [73, 74]]"
  by (simp add: example_text_def lines_of_def splitlines_def strip_def isspace_def is_linebreak_def)

text \<open>
  Claim C1. The footnote is made of the lines at positions 2, 3 and 4 of the band below the
  table, each reversed: it starts with the third line (empty when there is none) and the
  fourth and the fifth line follow, each after a newline, when they are not empty. With
  five lines or more it is the reversed third, fourth and fifth line joined by newlines,
  and it is empty when the band has no text.
\<close>

theorem footnote_lines_three_to_five:
  assumes "within_bbox_extract_text pg (footer_bbox pg bb hs) = t"
  shows "(t = None \<or> t = Some [] \<longrightarrow> extract_lines_below_table pg bb hs = [])
    \<and> (\<forall>s. t = Some s \<longrightarrow>
          extract_lines_below_table pg bb hs =
            (let lines = lines_of s;
                 third = (if 2 < length lines then rev (lines ! 2) else []);
                 fourth = (if 3 < length lines then rev (lines ! 3) else []);
                 fifth = (if 4 < length lines then rev (lines ! 4) else [])
             in third @ (if fourth = [] then [] else [newline] @ fourth)
                      @ (if fifth = [] then [] else [newline] @ fifth)))
    \<and> (\<forall>s. t = Some s \<and> 5 \<le> length (lines_of s) \<longrightarrow>
          extract_lines_below_table pg bb hs =
            rev (lines_of s ! 2) @ [newline] @ rev (lines_of s ! 3)
              @ [newline] @ rev (lines_of s ! 4))"
proof (intro conjI allI impI)
  assume "t = None \<or> t = Some []"
  with assms show "extract_lines_below_table pg bb hs = []"
    by (auto simp: extract_lines_below_table_def)
next
  fix s assume "t = Some s"
  with assms have ts: "within_bbox_extract_text pg (footer_bbox pg bb hs) = Some s" by simp
  show "extract_lines_below_table pg bb hs =
            (let lines = lines_of s;
                 third = (if 2 < length lines then rev (lines ! 2) else []);
                 fourth = (if 3 < length lines then rev (lines ! 3) else []);
                 fifth = (if 4 < length lines then rev (lines ! 4) else [])
             in third @ (if fourth = [] then [] else [newline] @ fourth)
                      @ (if fifth = [] then [] else [newline] @ fifth))"
    using lines_of_nth [of 3 s] lines_of_nth [of 4 s]
    by (simp add: below_Some [OF ts] Let_def)
next
  fix s assume "t = Some s \<and> 5 \<le> length (lines_of s)"
  with assms have ts: "within_bbox_extract_text pg (footer_bbox pg bb hs) = Some s"
    and n: "5 \<le> length (lines_of s)" by simp_all
  from n show "extract_lines_below_table pg bb hs =
            rev (lines_of s ! 2) @ [newline] @ rev (lines_of s ! 3)
              @ [newline] @ rev (lines_of s ! 4)"
    by (simp add: below_Some [OF ts])
qed

theorem footnote_lines_three_to_five_witness:
  "within_bbox_extract_text example_page (footer_bbox example_page (50, 40, 500, 100) 70)
     = Some example_text
   \<and> 5 \<le> length (lines_of example_text)
   \<and> extract_lines_below_table example_page (50, 40, 500, 100) 70
     = [70, 69, 10, 72, 71, 10, 74, 73]"
proof -
  have t: "within_bbox_extract_text example_page (footer_bbox example_page (50, 40, 500, 100) 70)
     = Some example_text"
    by (simp add: example_page_def footer_bbox_def)
  from footnote_lines_three_to_five [OF t] show ?thesis
    by (simp add: t example_lines)
qed

text \<open>
  Claim C2. The band above a table runs over the whole width of the page from
  \<open>max (y0 - height_above) 0\<close>, which is never negative, down to \<open>y0\<close>; the band below
  runs over the whole width from \<open>y1\<close> to \<open>min (y1 + height_scan) H\<close>, which is never below
  the bottom edge. Title and footnote depend on the text of the page in these bands only.
\<close>

theorem bands_clipped_full_width:
  "header_bbox pg (x0, y0, x1, y1) height_above = (0, max (y0 - height_above) 0, width pg, y0)
   \<and> 0 \<le> fst (snd (header_bbox pg (x0, y0, x1, y1) height_above))
   \<and> footer_bbox pg (x0, y0, x1, y1) height_scan
       = (0, y1, width pg, min (y1 + height_scan) (height pg))
   \<and> snd (snd (snd (footer_bbox pg (x0, y0, x1, y1) height_scan))) \<le> height pg
   \<and> extract_header_above_table pg (x0, y0, x1, y1) height_above
       = extract_header_above_table
           (pg\<lparr>within_bbox_extract_text :=
                 (\<lambda>b. if b = (0, max (y0 - height_above) 0, width pg, y0)
                      then within_bbox_extract_text pg b else None)\<rparr>)
           (x0, y0, x1, y1) height_above
   \<and> extract_lines_below_table pg (x0, y0, x1, y1) height_scan
       = extract_lines_below_table
           (pg\<lparr>within_bbox_extract_text :=
                 (\<lambda>b. if b = (0, y1, width pg, min (y1 + height_scan) (height pg))
                      then within_bbox_extract_text pg b else None)\<rparr>)
           (x0, y0, x1, y1) height_scan"
  by (simp add: header_bbox_def footer_bbox_def extract_header_above_table_def
      extract_lines_below_table_def)

text \<open>
  Claim C6. The title is a pair of empty strings when the band above the table has no
  text; with exactly one line it is that line reversed and the empty string; in general it
  is the first and the second line, each reversed, the empty string standing for a line
  that is not there.
\<close>

theorem title_lines_first_two:
  assumes "within_bbox_extract_text pg (header_bbox pg bb ha) = t"
  shows "(t = None \<or> t = Some [] \<longrightarrow> extract_header_above_table pg bb ha = ([], []))
    \<and> (\<forall>s l1. t = Some s \<and> lines_of s = [l1] \<longrightarrow>
          extract_header_above_table pg bb ha = (rev l1, []))
    \<and> (\<forall>s. t = Some s \<longrightarrow>
          extract_header_above_table pg bb ha =
            (if 0 < length (lines_of s) then rev (lines_of s ! 0) else [],
             if 1 < length (lines_of s) then rev (lines_of s ! 1) else []))"
  using assms by (auto simp: above_Some above_None lines_of_Nil)

theorem title_lines_first_two_witness:
  "within_bbox_extract_text one_line_page (header_bbox one_line_page (50, 40, 500, 100) 60)
     = Some [32, 65, 66, 67, 32, 10, 9, 10]
   \<and> lines_of [32, 65, 66, 67, 32, 10, 9, 10] = [[65, 66, 67]]
   \<and> extract_header_above_table one_line_page (50, 40, 500, 100) 60 = ([67, 66, 65], [])"
proof -
  have t: "within_bbox_extract_text one_line_page (header_bbox one_line_page (50, 40, 500, 100) 60)
     = Some [32, 65, 66, 67, 32, 10, 9, 10]"
    by (simp add: one_line_page_def)
  have l: "lines_of [32, 65, 66, 67, 32, 10, 9, 10] = [[65, 66, 67]]"
    by (simp add: lines_of_def splitlines_def strip_def isspace_def is_linebreak_def)
  from title_lines_first_two [OF t] t l show ?thesis
    by simp
qed

text \<open>
  Claim C9. The footnote never begins with a newline: when a fourth or a fifth line exists,
  the third line is not empty and does not end in whitespace, so its reversal does not
  begin with a newline; otherwise nothing is appended.
\<close>

theorem footnote_no_leading_newline:
  "(\<forall>rest. extract_lines_below_table pg bb hs \<noteq> newline # rest)
   \<and> (\<forall>s. 3 < length (lines_of s) \<or> 4 < length (lines_of s) \<longrightarrow>
          lines_of s ! 2 \<noteq> [] \<and> \<not> isspace (last (lines_of s ! 2)))"
proof -
  have nl: "isspace newline" by (simp add: isspace_def)
  have a: "extract_lines_below_table pg bb hs \<noteq> newline # rest" for rest
  proof (cases "within_bbox_extract_text pg (footer_bbox pg bb hs)")
    case None
    then show ?thesis by (simp add: below_None)
  next
    case (Some s)
    show ?thesis
    proof (cases "2 < length (lines_of s)")
      case True
      from lines_of_nth [OF True] nl
      have "lines_of s ! 2 \<noteq> []" and "last (lines_of s ! 2) \<noteq> newline" by auto
      then have "hd (rev (lines_of s ! 2)) \<noteq> newline" and "rev (lines_of s ! 2) \<noteq> []"
        by (simp_all add: hd_rev)
      with True show ?thesis
        by (cases "rev (lines_of s ! 2)") (auto simp: below_Some [OF Some])
    next
      case False
      then show ?thesis by (simp add: below_Some [OF Some])
    qed
  qed
  have b: "lines_of s ! 2 \<noteq> [] \<and> \<not> isspace (last (lines_of s ! 2))"
    if "3 < length (lines_of s) \<or> 4 < length (lines_of s)" for s
  proof -
    from that have "2 < length (lines_of s)" by auto
    from lines_of_nth [OF this] show ?thesis .
  qed
  from a b show ?thesis by blast
qed

theorem footnote_no_leading_newline_witness:
  "3 < length (lines_of example_text) \<and> lines_of example_text ! 2 = [69, 70]
   \<and> \<not> isspace 70
   \<and> extract_lines_below_table example_page (50, 40, 500, 100) 70 \<noteq> [newline, 72, 71]"
  using footnote_no_leading_newline [of example_page "(50, 40, 500, 100)" 70]
  by (simp add: example_lines isspace_def)

text \<open>
  Claim C10. A band whose text is not empty but consists of whitespace only has no lines,
  so the title is a pair of empty strings and the footnote is the empty string.
\<close>

theorem whitespace_only_band:
  assumes "s \<noteq> []" and "\<forall>c\<in>set s. isspace c"
  shows "lines_of s = []
    \<and> (within_bbox_extract_text pg (header_bbox pg bb ha) = Some s \<longrightarrow>
         extract_header_above_table pg bb ha = ([], []))
    \<and> (within_bbox_extract_text pg (footer_bbox pg bb hs) = Some s \<longrightarrow>
         extract_lines_below_table pg bb hs = [])"
  using lines_of_whitespace [OF assms(2)] by (auto simp: above_Some below_Some)

theorem whitespace_only_band_witness:
  "[32, 9, 10, 13, 10, 160, 8195] \<noteq> ([] :: pystr)
   \<and> list_all isspace [32, 9, 10, 13, 10, 160, 8195]
   \<and> within_bbox_extract_text blank_page (header_bbox blank_page (50, 40, 500, 100) 60)
       = Some [32, 9, 10, 13, 10, 160, 8195]
   \<and> within_bbox_extract_text blank_page (footer_bbox blank_page (50, 40, 500, 100) 70)
       = Some [32, 9, 10, 13, 10, 160, 8195]
   \<and> extract_header_above_table blank_page (50, 40, 500, 100) 60 = ([], [])
   \<and> extract_lines_below_table blank_page (50, 40, 500, 100) 70 = []"
proof -
  have a: "[32, 9, 10, 13, 10, 160, 8195] \<noteq> ([] :: pystr)" by simp
  have b: "\<forall>c\<in>set [32, 9, 10, 13, 10, 160, 8195]. isspace c" by (simp add: isspace_def)
  have h: "within_bbox_extract_text blank_page (header_bbox blank_page (50, 40, 500, 100) 60)
       = Some [32, 9, 10, 13, 10, 160, 8195]" by (simp add: blank_page_def)
  have f: "within_bbox_extract_text blank_page (footer_bbox blank_page (50, 40, 500, 100) 70)
       = Some [32, 9, 10, 13, 10, 160, 8195]" by (simp add: blank_page_def)
  have c: "list_all isspace [32, 9, 10, 13, 10, 160, 8195]" by (simp add: isspace_def)
  from whitespace_only_band [OF a b, of blank_page "(50, 40, 500, 100)" 60 70] a c h f show ?thesis
    by simp
qed

section \<open>Frames, tables and pages\<close>

lemma assign_col_fresh: "k \<notin> fst ` set cs \<Longrightarrow> assign_col k vs cs = cs @ [(k, vs)]"
  by (induction cs) auto

lemma labels_distinct:
  "distinct [col_page, col_row, col_reshte, col_title, col_title2, col_footer]"
  by (simp add: col_page_def col_row_def col_reshte_def col_title_def col_title2_def col_footer_def)

lemma convert_strings_or_none:
  "list_all (\<lambda>x. is_str x \<or> x = NoneVal) vs \<Longrightarrow> maybe_convert_objects vs = vs"
proof (cases "list_ex is_str vs")
  case True
  then show ?thesis by (simp add: maybe_convert_objects_def)
next
  case False
  assume "list_all (\<lambda>x. is_str x \<or> x = NoneVal) vs"
  with False have "\<forall>x\<in>set vs. x = NoneVal"
    by (auto simp: list_all_iff list_ex_iff)
  then have "\<not> list_ex is_float vs" and "\<not> list_ex is_int vs"
    by (auto simp: list_ex_iff)
  with False show ?thesis by (simp add: maybe_convert_objects_def)
qed

lemma raw_column:
  "maybe_convert_objects (map (\<lambda>row. if j < length row then cell_of (row ! j) else NoneVal) t)
     = map (\<lambda>row. if j < length row then cell_of (row ! j) else NoneVal) t"
  by (rule convert_strings_or_none) (auto simp: list_all_iff cell_of_def split: option.splits)

lemma reversed_column:
  "maybe_convert_objects
     (map (\<lambda>row. if j < length row
                 then (case row ! j of Some s \<Rightarrow> Str (rev s) | None \<Rightarrow> NoneVal)
                 else NoneVal) t)
     = map (\<lambda>row. if j < length row
                 then (case row ! j of Some s \<Rightarrow> Str (rev s) | None \<Rightarrow> NoneVal)
                 else NoneVal) t"
  by (rule convert_strings_or_none) (auto simp: list_all_iff split: option.splits)

lemma raw_cols:
  "cols (reverse_strings (DataFrame t)) =
     map (\<lambda>j. (ColNum j,
               map (\<lambda>row. if j < length row
                          then (case row ! j of Some s \<Rightarrow> Str (rev s) | None \<Rightarrow> NoneVal)
                          else NoneVal) t))
         [0..<table_width t]"
proof -
  have h: "(\<lambda>row. case (if j < length row then cell_of (row ! j) else NoneVal) of
                     Str s \<Rightarrow> Str (rev s)
                   | _ \<Rightarrow> (if j < length row then cell_of (row ! j) else NoneVal))
        = (\<lambda>row. if j < length row
                 then (case row ! j of Some s \<Rightarrow> Str (rev s) | None \<Rightarrow> NoneVal)
                 else NoneVal)" for j
    by (rule ext) (simp add: cell_of_def split: option.splits)
  show ?thesis
    by (simp add: reverse_strings_def applymap_def DataFrame_def raw_column comp_def h
        reversed_column)
qed

lemma raw_labels: "map fst (cols (reverse_strings (DataFrame t))) = map ColNum [0..<table_width t]"
  by (simp add: raw_cols comp_def)

lemma raw_nrows: "nrows (reverse_strings (DataFrame t)) = length t"
  by (simp add: reverse_strings_def applymap_def DataFrame_def)

lemma name_not_raw: "ColName n \<notin> fst ` set (cols (reverse_strings (DataFrame t)))"
proof -
  have "fst ` set (cols (reverse_strings (DataFrame t))) = set (map ColNum [0..<table_width t])"
    using raw_labels [of t] by (metis set_map)
  then show ?thesis by auto
qed

lemma process_table_eq:
  "process_table page_num reshte pg t tobj =
     Inr \<lparr>nrows = length t,
          cols = cols (reverse_strings (DataFrame t)) @
            [(col_page, replicate (length t) (IntVal page_num)),
             (col_row, map IntVal [1..int (length t)]),
             (col_reshte, replicate (length t) (Str reshte)),
             (col_title, replicate (length t) (Str (fst (extract_header_above_table pg (bbox tobj) 60)))),
             (col_title2, replicate (length t) (Str (snd (extract_header_above_table pg (bbox tobj) 60)))),
             (col_footer, replicate (length t) (Str (extract_lines_below_table pg (bbox tobj) 70)))]\<rparr>"
proof -
  define raw where "raw = reverse_strings (DataFrame t)"
  have n: "nrows raw = length t" by (simp add: raw_def raw_nrows)
  have fresh: "ColName m \<notin> fst ` set (cols raw)" for m
    by (simp add: raw_def name_not_raw)
  have d: "distinct [col_page, col_row, col_reshte, col_title, col_title2, col_footer]"
    by (rule labels_distinct)
  have f1: "col_page \<notin> fst ` set (cols raw)" "col_row \<notin> fst ` set (cols raw)"
    "col_reshte \<notin> fst ` set (cols raw)" "col_title \<notin> fst ` set (cols raw)"
    "col_title2 \<notin> fst ` set (cols raw)" "col_footer \<notin> fst ` set (cols raw)"
    using fresh by (simp_all add: col_page_def col_row_def col_reshte_def col_title_def col_title2_def col_footer_def)
  let ?c1 = "cols raw @ [(col_page, replicate (length t) (IntVal page_num))]"
  let ?c2 = "?c1 @ [(col_row, map IntVal [1..int (length t)])]"
  let ?c3 = "?c2 @ [(col_reshte, replicate (length t) (Str reshte))]"
  let ?c4 = "?c3 @ [(col_title, replicate (length t) (Str (fst (extract_header_above_table pg (bbox tobj) 60))))]"
  let ?c5 = "?c4 @ [(col_title2, replicate (length t) (Str (snd (extract_header_above_table pg (bbox tobj) 60))))]"
  let ?c6 = "?c5 @ [(col_footer, replicate (length t) (Str (extract_lines_below_table pg (bbox tobj) 70)))]"
  have s1: "assign_col col_page vs (cols raw) = cols raw @ [(col_page, vs)]" for vs
    using f1 by (simp add: assign_col_fresh)
  have s2: "assign_col col_row vs ?c1 = ?c1 @ [(col_row, vs)]" for vs
    using f1 d by (intro assign_col_fresh) auto
  have s3: "assign_col col_reshte vs ?c2 = ?c2 @ [(col_reshte, vs)]" for vs
    using f1 d by (intro assign_col_fresh) auto
  have s4: "assign_col col_title vs ?c3 = ?c3 @ [(col_title, vs)]" for vs
    using f1 d by (intro assign_col_fresh) auto
  have s5: "assign_col col_title2 vs ?c4 = ?c4 @ [(col_title2, vs)]" for vs
    using f1 d by (intro assign_col_fresh) auto
  have s6: "assign_col col_footer vs ?c5 = ?c5 @ [(col_footer, vs)]" for vs
    using f1 d by (intro assign_col_fresh) auto
  have r: "raw\<lparr>cols := cs\<rparr> = \<lparr>nrows = length t, cols = cs\<rparr>" for cs
    using n by (cases raw) simp
  show ?thesis
    unfolding process_table_def raw_def [symmetric] Let_def
    by (simp add: setitem_scalar_def setitem_seq_def n split_beta s1 s2 s3 s4 s5 s6 r
        del: append_assoc)
qed


lemma table_loop_eq:
  "\<exists>dfs. table_loop page_num reshte pg zs = Inr dfs
     \<and> map Inr dfs = map (\<lambda>(t, tobj). process_table page_num reshte pg t tobj)
                         (filter (\<lambda>(t, tobj). t \<noteq> []) zs)"
proof (induction zs)
  case Nil
  show ?case by simp
next
  case (Cons z zs)
  obtain t tobj where z: "z = (t, tobj)" by (cases z)
  from Cons obtain dfs where dfs: "table_loop page_num reshte pg zs = Inr dfs"
    "map Inr dfs = map (\<lambda>(t, tobj). process_table page_num reshte pg t tobj)
                         (filter (\<lambda>(t, tobj). t \<noteq> []) zs)" by blast
  obtain df where df: "process_table page_num reshte pg t tobj = Inr df"
    using process_table_eq by blast
  show ?case using dfs df by (simp add: z)
qed

lemma all_dfs_mismatch:
  "length (extract_tables pg) \<noteq> length (find_tables pg) \<Longrightarrow> all_dfs page_num reshte pg = Inr []"
  by (simp add: all_dfs_def Let_def)

lemma page_loop_files:
  "f \<in> set (fst (page_loop pdf_path reshte k pgs)) \<Longrightarrow>
   \<exists>i<length pgs. process_page pdf_path reshte (k + int i) (pgs ! i) = Inr (Some f)"
proof (induction pgs arbitrary: k)
  case Nil
  then show ?case by simp
next
  case (Cons pg pgs)
  show ?case
  proof (cases "process_page pdf_path reshte k pg")
    case (Inl e)
    with Cons.prems show ?thesis by simp
  next
    case (Inr w)
    from Cons.prems Inr
    have "w = Some f \<or> f \<in> set (fst (page_loop pdf_path reshte (k + 1) pgs))"
      by (auto simp: split_beta split: option.splits)
    then show ?thesis
    proof
      assume "w = Some f"
      with Inr have "process_page pdf_path reshte (k + int 0) ((pg # pgs) ! 0) = Inr (Some f)"
        by simp
      then show ?thesis by blast
    next
      assume "f \<in> set (fst (page_loop pdf_path reshte (k + 1) pgs))"
      from Cons.IH [OF this] obtain i where i: "i < length pgs"
        "process_page pdf_path reshte (k + 1 + int i) (pgs ! i) = Inr (Some f)" by blast
      then have "Suc i < length (pg # pgs)"
        "process_page pdf_path reshte (k + int (Suc i)) ((pg # pgs) ! Suc i) = Inr (Some f)"
        by (simp_all add: add.assoc)
      then show ?thesis by blast
    qed
  qed
qed

lemma process_page_of_page:
  "process_page pdf_path reshte k pg = Inr (Some f) \<Longrightarrow> of_page f = k"
  by (auto simp: process_page_def split: sum.splits if_splits)

text \<open>
  Claim C3. On a page where the list of table grids and the list of table geometries differ
  in length, no table is processed (\<open>all_dfs\<close> stays empty), no file is written for the
  page, and no file written for the whole PDF carries the number of that page.
\<close>

theorem mismatch_skips_page:
  assumes "length (extract_tables pg) \<noteq> length (find_tables pg)"
  shows "all_dfs page_num reshte pg = Inr []
    \<and> process_page pdf_path reshte page_num pg = Inr None
    \<and> (\<forall>pdf i. i < length pdf \<and> pdf ! i = pg \<longrightarrow>
          (\<forall>f\<in>set (fst (process_pdf pdf_path reshte pdf)). of_page f \<noteq> 1 + int i))"
proof -
  have a: "all_dfs n reshte pg = Inr []" for n
    using assms by (rule all_dfs_mismatch)
  have b: "process_page pdf_path reshte n pg = Inr None" for n
    by (simp add: process_page_def a)
  have c: "of_page f \<noteq> 1 + int i"
    if "i < length pdf" "pdf ! i = pg" "f \<in> set (fst (process_pdf pdf_path reshte pdf))"
    for pdf i f
  proof
    assume eq: "of_page f = 1 + int i"
    from that(3) obtain j where j: "j < length pdf"
      "process_page pdf_path reshte (1 + int j) (pdf ! j) = Inr (Some f)"
      unfolding process_pdf_def using page_loop_files by blast
    from process_page_of_page [OF j(2)] eq have "j = i" by simp
    with j(2) that(2) b [of "1 + int i"] show False by simp
  qed
  from a b c show ?thesis by blast
qed

theorem mismatch_skips_page_witness:
  "length (extract_tables mismatch_page) = 2 \<and> length (find_tables mismatch_page) = 1
   \<and> all_dfs 1 [1607] mismatch_page = Inr []
   \<and> process_page [97] [1607] 1 mismatch_page = Inr None
   \<and> fst (process_pdf [97] [1607] [mismatch_page]) = []"
proof -
  have h: "length (extract_tables mismatch_page) \<noteq> length (find_tables mismatch_page)"
    by (simp add: mismatch_page_def)
  have l: "length (extract_tables mismatch_page) = 2 \<and> length (find_tables mismatch_page) = 1"
    by (simp add: mismatch_page_def)
  from mismatch_skips_page [OF h, of 1 "[1607]" "[97]"] l show ?thesis
    by (simp add: process_pdf_def)
qed













lemma first_seen_set: "set (first_seen xs) = set xs"
  by (induction xs rule: first_seen.induct) auto

lemma raw_length: "length (cols (reverse_strings (DataFrame t))) = table_width t"
  using raw_labels [of t] by (metis length_map length_upt minus_nat.diff_0)

lemma pd_concat_column:
  assumes "pd_concat dfs = Inr r" and "l \<in> set (concat (map (\<lambda>df. map fst (cols df)) dfs))"
  shows "map_of (cols r) l = Some (concat (map (column_or_missing l) dfs))"
proof -
  from assms(1) have "cols r = map (\<lambda>l. (l, concat (map (column_or_missing l) dfs)))
                           (first_seen (concat (map (\<lambda>df. map fst (cols df)) dfs)))"
    by (auto simp: pd_concat_def split: if_splits)
  then show ?thesis
    using assms(2) by (simp add: map_of_map_restrict first_seen_set del: set_concat)
qed

lemma process_table_row_column:
  assumes "process_table page_num reshte pg t tobj = Inr df"
  shows "column_or_missing col_row df = map IntVal [1..int (length t)]"
    and "col_row \<in> set (map fst (cols df))"
proof -
  have d: "distinct [col_page, col_row, col_reshte, col_title, col_title2, col_footer]"
    by (rule labels_distinct)
  have n: "map_of (cols (reverse_strings (DataFrame t))) col_row = None"
    by (simp add: map_of_eq_None_iff col_row_def name_not_raw)
  from assms have c: "cols df = cols (reverse_strings (DataFrame t)) @
            [(col_page, replicate (length t) (IntVal page_num)),
             (col_row, map IntVal [1..int (length t)]),
             (col_reshte, replicate (length t) (Str reshte)),
             (col_title, replicate (length t) (Str (fst (extract_header_above_table pg (bbox tobj) 60)))),
             (col_title2, replicate (length t) (Str (snd (extract_header_above_table pg (bbox tobj) 60)))),
             (col_footer, replicate (length t) (Str (extract_lines_below_table pg (bbox tobj) 70)))]"
    by (auto simp: process_table_eq)
  from d n show "column_or_missing col_row df = map IntVal [1..int (length t)]"
    by (auto simp: column_or_missing_def c map_add_def)
  show "col_row \<in> set (map fst (cols df))"
    by (simp add: c)
qed

lemma table_loop_row_column:
  "table_loop page_num reshte pg zs = Inr dfs \<Longrightarrow>
   concat (map (column_or_missing col_row) dfs)
     = concat (map (\<lambda>t. map IntVal [1..int (length t)]) (filter (\<lambda>t. t \<noteq> []) (map fst zs)))
   \<and> (\<forall>df\<in>set dfs. col_row \<in> set (map fst (cols df)))"
proof (induction zs arbitrary: dfs)
  case Nil
  then show ?case by simp
next
  case (Cons z zs)
  obtain t tobj where z: "z = (t, tobj)" by (cases z)
  show ?case
  proof (cases "t = []")
    case True
    with Cons z show ?thesis by simp
  next
    case False
    obtain df where df: "process_table page_num reshte pg t tobj = Inr df"
      using process_table_eq by blast
    from Cons.prems False df z obtain dfs' where
      d: "table_loop page_num reshte pg zs = Inr dfs'" "dfs = df # dfs'"
      by (auto split: sum.splits)
    from Cons.IH [OF d(1)] process_table_row_column [OF df] False
    show ?thesis by (simp add: d(2) z)
  qed
qed

text \<open>
  Claim C5. Processing a page never raises, and in the frame written for a page the
  row-index column is the concatenation of \<open>1..N\<close> for each processed table with \<open>N\<close>
  rows: the numbering starts again at 1 for every table and concatenation does not
  renumber it.
\<close>

theorem row_index_local:
  "\<exists>w. process_page pdf_path reshte page_num pg = Inr w
     \<and> (\<forall>f. w = Some f \<longrightarrow>
          map_of (cols (content f)) col_row =
            Some (concat (map (\<lambda>t. map IntVal [1..int (length t)])
                              (filter (\<lambda>t. t \<noteq> []) (extract_tables pg)))))"
proof (cases "extract_tables pg \<noteq> [] \<and> find_tables pg \<noteq> []
              \<and> length (extract_tables pg) = length (find_tables pg)")
  case False
  then have "all_dfs page_num reshte pg = Inr []"
    by (auto simp: all_dfs_def Let_def)
  then show ?thesis by (simp add: process_page_def)
next
  case True
  let ?zs = "zip (extract_tables pg) (find_tables pg)"
  from table_loop_eq obtain dfs where dfs: "table_loop page_num reshte pg ?zs = Inr dfs"
    by blast
  with True have a: "all_dfs page_num reshte pg = Inr dfs"
    by (simp add: all_dfs_def Let_def)
  from True have m: "map fst ?zs = extract_tables pg" by simp
  note rc = table_loop_row_column [OF dfs, unfolded m]
  show ?thesis
  proof (cases "dfs = []")
    case True
    with a show ?thesis by (simp add: process_page_def)
  next
    case False
    then obtain r where r: "pd_concat dfs = Inr r" by (simp add: pd_concat_def)
    from False rc have "col_row \<in> set (concat (map (\<lambda>df. map fst (cols df)) dfs))"
      by (cases dfs) auto
    from pd_concat_column [OF r this] rc
    have "map_of (cols r) col_row =
            Some (concat (map (\<lambda>t. map IntVal [1..int (length t)])
                              (filter (\<lambda>t. t \<noteq> []) (extract_tables pg))))"
      by simp
    with a r False show ?thesis by (simp add: process_page_def)
  qed
qed

lemma upto_1_3: "[1..3::int] = [1, 2, 3]"
  by code_simp

lemma upto_nth: "i < n \<Longrightarrow> [1..int n] ! i = 1 + int i"
  by (simp add: nth_upto)

theorem row_index_local_witness:
  "map length (filter (\<lambda>t. t \<noteq> []) (extract_tables two_table_page)) = [3, 3]
   \<and> (\<exists>f. process_page [97] [1607] 1 two_table_page = Inr (Some f)
          \<and> map_of (cols (content f)) col_row
              = Some [IntVal 1, IntVal 2, IntVal 3, IntVal 1, IntVal 2, IntVal 3])"
proof -
  have t: "filter (\<lambda>t. t \<noteq> []) (extract_tables two_table_page) =
       [[[Some [65, 66], None], [Some [67]], [None, Some [68, 69]]],
        [[Some [70]], [Some [71]], [Some [72]]]]"
    by (simp add: two_table_page_def)
  from row_index_local [of "[97]" "[1607]" 1 two_table_page]
  obtain w where w: "process_page [97] [1607] 1 two_table_page = Inr w"
    and c: "\<And>f. w = Some f \<Longrightarrow> map_of (cols (content f)) col_row =
            Some (concat (map (\<lambda>t. map IntVal [1..int (length t)])
                              (filter (\<lambda>t. t \<noteq> []) (extract_tables two_table_page))))"
    by blast
  have "process_page [97] [1607] 1 two_table_page \<noteq> Inr None"
    by (simp add: process_page_def all_dfs_def two_table_page_def process_table_eq pd_concat_def Let_def)
  with w obtain f where f: "w = Some f" by (cases w) auto
  from c [OF f] have "map_of (cols (content f)) col_row
              = Some [IntVal 1, IntVal 2, IntVal 3, IntVal 1, IntVal 2, IntVal 3]"
    by (simp add: t upto_1_3)
  with w f t show ?thesis by simp
qed

text \<open>
  Claim C7. Every row produced for a table carries, after the table's own cells, exactly
  the six metadata fields page number, row index (counted from 1), subject label, title
  line 1, title line 2 and footnote, under six distinct names, whatever the page holds;
  title and footnote are strings, and they are empty strings when the band has no text.
\<close>

theorem six_metadata_fields:
  "\<exists>df. process_table page_num reshte pg t tobj = Inr df
     \<and> nrows df = length t
     \<and> map fst (cols df) = map ColNum [0..<table_width t]
         @ [col_page, col_row, col_reshte, col_title, col_title2, col_footer]
     \<and> distinct [col_page, col_row, col_reshte, col_title, col_title2, col_footer]
     \<and> (\<forall>i<length t.
          drop (table_width t) (df_row df i) =
            [(col_page, IntVal page_num), (col_row, IntVal (1 + int i)),
             (col_reshte, Str reshte),
             (col_title, Str (fst (extract_header_above_table pg (bbox tobj) 60))),
             (col_title2, Str (snd (extract_header_above_table pg (bbox tobj) 60))),
             (col_footer, Str (extract_lines_below_table pg (bbox tobj) 70))])
     \<and> (within_bbox_extract_text pg (header_bbox pg (bbox tobj) 60) = None \<longrightarrow>
          extract_header_above_table pg (bbox tobj) 60 = ([], []))
     \<and> (within_bbox_extract_text pg (footer_bbox pg (bbox tobj) 70) = None \<longrightarrow>
          extract_lines_below_table pg (bbox tobj) 70 = [])"
proof -
  let ?df = "\<lparr>nrows = length t,
          cols = cols (reverse_strings (DataFrame t)) @
            [(col_page, replicate (length t) (IntVal page_num)),
             (col_row, map IntVal [1..int (length t)]),
             (col_reshte, replicate (length t) (Str reshte)),
             (col_title, replicate (length t) (Str (fst (extract_header_above_table pg (bbox tobj) 60)))),
             (col_title2, replicate (length t) (Str (snd (extract_header_above_table pg (bbox tobj) 60)))),
             (col_footer, replicate (length t) (Str (extract_lines_below_table pg (bbox tobj) 70)))]\<rparr>"
  have a: "process_table page_num reshte pg t tobj = Inr ?df"
    by (rule process_table_eq)
  have b: "nrows ?df = length t" by simp
  have c: "map fst (cols ?df) = map ColNum [0..<table_width t]
         @ [col_page, col_row, col_reshte, col_title, col_title2, col_footer]"
    by (simp add: raw_labels)
  have d: "distinct [col_page, col_row, col_reshte, col_title, col_title2, col_footer]"
    by (rule labels_distinct)
  have e: "drop (table_width t) (df_row ?df i) =
            [(col_page, IntVal page_num), (col_row, IntVal (1 + int i)),
             (col_reshte, Str reshte),
             (col_title, Str (fst (extract_header_above_table pg (bbox tobj) 60))),
             (col_title2, Str (snd (extract_header_above_table pg (bbox tobj) 60))),
             (col_footer, Str (extract_lines_below_table pg (bbox tobj) 70))]"
    if "i < length t" for i
    using that by (simp add: df_row_def raw_length upto_nth)
  from a b c d e above_None below_None show ?thesis by blast
qed


lemma example_footer_band:
  "within_bbox_extract_text example_page (footer_bbox example_page (50, 40, 500, 100) 70)
     = Some example_text"
  by (simp add: example_page_def footer_bbox_def)

lemma example_footnote:
  "extract_lines_below_table example_page (50, 40, 500, 100) 70 = [70, 69, 10, 72, 71, 10, 74, 73]"
  by (simp add: below_Some [OF example_footer_band] example_lines)

lemma example_header_band:
  "within_bbox_extract_text example_page (header_bbox example_page (50, 40, 500, 100) 60) = None"
  by (simp add: example_page_def header_bbox_def)

lemma example_table_shape: "length example_table = 2" "table_width example_table = 2"
  by (simp_all add: example_table_def table_width_def)

theorem six_metadata_fields_witness:
  "within_bbox_extract_text example_page (header_bbox example_page (50, 40, 500, 100) 60) = None
   \<and> (\<exists>df. process_table 3 [1607, 1606] example_page example_table \<lparr>bbox = (50, 40, 500, 100)\<rparr>
              = Inr df
          \<and> nrows df = 2
          \<and> drop 2 (df_row df 1) =
              [(col_page, IntVal 3), (col_row, IntVal 2), (col_reshte, Str [1607, 1606]),
               (col_title, Str []), (col_title2, Str []),
               (col_footer, Str [70, 69, 10, 72, 71, 10, 74, 73])])"
proof -
  from six_metadata_fields [of 3 "[1607, 1606]" example_page example_table "\<lparr>bbox = (50, 40, 500, 100)\<rparr>"]
  obtain df where
    a: "process_table 3 [1607, 1606] example_page example_table \<lparr>bbox = (50, 40, 500, 100)\<rparr>
          = Inr df"
    and n: "nrows df = length example_table"
    and r: "\<forall>i<length example_table.
          drop (table_width example_table) (df_row df i) =
            [(col_page, IntVal 3), (col_row, IntVal (1 + int i)),
             (col_reshte, Str [1607, 1606]),
             (col_title, Str (fst (extract_header_above_table example_page
                                     (bbox \<lparr>bbox = (50, 40, 500, 100)\<rparr>) 60))),
             (col_title2, Str (snd (extract_header_above_table example_page
                                     (bbox \<lparr>bbox = (50, 40, 500, 100)\<rparr>) 60))),
             (col_footer, Str (extract_lines_below_table example_page
                                     (bbox \<lparr>bbox = (50, 40, 500, 100)\<rparr>) 70))]"
    and h: "within_bbox_extract_text example_page
              (header_bbox example_page (bbox \<lparr>bbox = (50, 40, 500, 100)\<rparr>) 60) = None \<longrightarrow>
            extract_header_above_table example_page (bbox \<lparr>bbox = (50, 40, 500, 100)\<rparr>) 60
              = ([], [])"
    by (elim exE conjE) (rule that)
  from h example_header_band
  have t: "extract_header_above_table example_page (50, 40, 500, 100) 60 = ([], [])"
    by simp
  have l: "(1::nat) < length example_table" by (simp add: example_table_shape)
  from r [rule_format, OF l] have "drop 2 (df_row df 1) =
              [(col_page, IntVal 3), (col_row, IntVal 2), (col_reshte, Str [1607, 1606]),
               (col_title, Str []), (col_title2, Str []),
               (col_footer, Str [70, 69, 10, 72, 71, 10, 74, 73])]"
    by (simp add: example_table_shape t example_footnote)
  with a n example_header_band show ?thesis
    by (simp add: example_table_shape)
qed

text \<open>
  Claim C8. The frame of a processed table consists of the columns of the table's cells
  with \<open>reverse_strings\<close> applied once (a string cell reversed, any other cell unchanged),
  followed by the six metadata columns as they were computed: the page number and the
  subject label as given, the title and the footnote exactly as the extraction functions
  returned them.
\<close>

theorem normalizer_before_metadata:
  "process_table page_num reshte pg t tobj =
     Inr \<lparr>nrows = length t,
          cols = cols (reverse_strings (DataFrame t)) @
            [(col_page, replicate (length t) (IntVal page_num)),
             (col_row, map IntVal [1..int (length t)]),
             (col_reshte, replicate (length t) (Str reshte)),
             (col_title, replicate (length t) (Str (fst (extract_header_above_table pg (bbox tobj) 60)))),
             (col_title2, replicate (length t) (Str (snd (extract_header_above_table pg (bbox tobj) 60)))),
             (col_footer, replicate (length t) (Str (extract_lines_below_table pg (bbox tobj) 70)))]\<rparr>
   \<and> cols (reverse_strings (DataFrame t)) =
       map (\<lambda>j. (ColNum j,
                 map (\<lambda>row. if j < length row
                            then (case row ! j of Some s \<Rightarrow> Str (rev s) | None \<Rightarrow> NoneVal)
                            else NoneVal) t))
           [0..<table_width t]"
proof -
  have "cols (reverse_strings (DataFrame t)) =
       map (\<lambda>j. (ColNum j,
                 map (\<lambda>row. if j < length row
                            then (case row ! j of Some s \<Rightarrow> Str (rev s) | None \<Rightarrow> NoneVal)
                            else NoneVal) t))
           [0..<table_width t]"
    by (rule raw_cols)
  with process_table_eq [of page_num reshte pg t tobj] show ?thesis by blast
qed

end
